theory Spec2Isabelle
  imports Complex_Main "HOL-Library.AList"
begin

section \<open>URL shortener: the in-memory store (app/models.py)\<close>

text \<open>
  \<^verbatim>\<open>URLMapping\<close> is a mutable dataclass. The store's dictionary holds references to
  such objects, and \<^verbatim>\<open>add_mapping\<close>, \<^verbatim>\<open>get_mapping\<close> and \<^verbatim>\<open>get_all_mappings\<close> hand these
  references out. The model therefore keeps the objects in an explicit heap: a reference
  is the index of the object in the list of all \<^verbatim>\<open>URLMapping\<close> objects allocated so far.
  \<^verbatim>\<open>created_at\<close> is the reading of \<^verbatim>\<open>time.time()\<close>; the clock is an input of the model.
\<close>

record URLMapping =
  original_url :: string
  short_code :: string
  created_at :: real
  clicks :: int

type_synonym ref = nat

text \<open>
  The dictionary \<^verbatim>\<open>_mappings\<close> is an association list in insertion order with one entry
  per key; \<^verbatim>\<open>d[k] = v\<close> is \<^const>\<open>AList.update\<close> (replace in place, or append) and
  \<^verbatim>\<open>d.get(k)\<close> is \<^const>\<open>map_of\<close>. Every method body runs under \<^verbatim>\<open>self._lock\<close>, so each call
  is one atomic step of the state.
\<close>

record store_state =
  heap :: "URLMapping list"
  mappings :: "(string \<times> ref) list"

definition empty_store :: store_state where
  "empty_store = \<lparr>heap = [], mappings = []\<rparr>"

definition add_mapping :: "string \<Rightarrow> string \<Rightarrow> real \<Rightarrow> store_state \<Rightarrow> ref \<times> store_state" where
  "add_mapping code url now s =
     (let mapping = \<lparr>original_url = url, short_code = code, created_at = now, clicks = 0\<rparr>;
          r = length (heap s)
      in (r, \<lparr>heap = heap s @ [mapping], mappings = AList.update code r (mappings s)\<rparr>))"

definition get_mapping :: "string \<Rightarrow> store_state \<Rightarrow> ref option" where
  "get_mapping code s = map_of (mappings s) code"

text \<open>
  \<^verbatim>\<open>if mapping:\<close> tests the object returned by \<^verbatim>\<open>dict.get\<close>; a dataclass instance defines
  neither \<^verbatim>\<open>__bool__\<close> nor \<^verbatim>\<open>__len__\<close>, so the test fails only for \<^verbatim>\<open>None\<close>.
\<close>

definition increment_clicks :: "string \<Rightarrow> store_state \<Rightarrow> bool \<times> store_state" where
  "increment_clicks code s =
     (case map_of (mappings s) code of
        Some r \<Rightarrow> (True, s\<lparr>heap := (heap s)[r := (heap s ! r)\<lparr>clicks := clicks (heap s ! r) + 1\<rparr>]\<rparr>)
      | None \<Rightarrow> (False, s))"

text \<open>\<^verbatim>\<open>dict.copy()\<close> builds a new dictionary holding the same references.\<close>

definition get_all_mappings :: "store_state \<Rightarrow> (string \<times> ref) list" where
  "get_all_mappings s = mappings s"

text \<open>Reading an object through a reference, and the record stored under a code.\<close>

definition deref :: "store_state \<Rightarrow> ref \<Rightarrow> URLMapping option" where
  "deref s r = (if r < length (heap s) then Some (heap s ! r) else None)"

definition stored :: "store_state \<Rightarrow> string \<Rightarrow> URLMapping option" where
  "stored s code = (case get_mapping code s of None \<Rightarrow> None | Some r \<Rightarrow> deref s r)"

text \<open>Reading a dictionary returned by \<^const>\<open>get_all_mappings\<close> in a (possibly later) state.\<close>

definition read_copy :: "(string \<times> ref) list \<Rightarrow> store_state \<Rightarrow> string \<Rightarrow> URLMapping option" where
  "read_copy d s code = (case map_of d code of None \<Rightarrow> None | Some r \<Rightarrow> deref s r)"

text \<open>Sequences of calls of the four methods, starting from a fresh \<^verbatim>\<open>URLStore()\<close>.\<close>

datatype store_op =
    AddMapping string string real
  | GetMapping string
  | IncrementClicks string
  | GetAllMappings

fun exec_op :: "store_op \<Rightarrow> store_state \<Rightarrow> store_state" where
  "exec_op (AddMapping code url now) s = snd (add_mapping code url now s)"
| "exec_op (GetMapping code) s = s"
| "exec_op (IncrementClicks code) s = snd (increment_clicks code s)"
| "exec_op GetAllMappings s = s"

fun exec_ops :: "store_op list \<Rightarrow> store_state \<Rightarrow> store_state" where
  "exec_ops [] s = s"
| "exec_ops (x # xs) s = exec_ops xs (exec_op x s)"

fun adds :: "string \<Rightarrow> store_op \<Rightarrow> bool" where
  "adds code (AddMapping code' url now) = (code' = code)"
| "adds code _ = False"

text \<open>
  The representation invariant of the store: keys are unique, every reference in the
  dictionary points to an allocated object, that object carries its own key and a
  non-negative counter.
\<close>

definition store_inv :: "store_state \<Rightarrow> bool" where
  "store_inv s \<longleftrightarrow>
     distinct (map fst (mappings s)) \<and>
     (\<forall>(c, r) \<in> set (mappings s).
        r < length (heap s) \<and> short_code (heap s ! r) = c \<and> 0 \<le> clicks (heap s ! r))"

section \<open>URL shortener: short codes (app/utils.py)\<close>

text \<open>
  Strings are lists of characters; a character stands for one code point of the Python
  string, restricted to the code points below 256.
\<close>

datatype py_error = KeyError string | TypeError | AttributeError | IndexError | OverflowError

definition ascii_lowercase :: string where
  "ascii_lowercase = ''abcdefghijklmnopqrstuvwxyz''"

definition ascii_uppercase :: string where
  "ascii_uppercase = ''ABCDEFGHIJKLMNOPQRSTUVWXYZ''"

definition ascii_letters :: string where
  "ascii_letters = ascii_lowercase @ ascii_uppercase"

definition digits :: string where
  "digits = ''0123456789''"

text \<open>
  The random source is the sequence of raw outcomes it will produce. \<^verbatim>\<open>random.choice(seq)\<close>
  raises \<^verbatim>\<open>IndexError\<close> on an empty sequence and otherwise returns \<^verbatim>\<open>seq[i]\<close> for an index
  \<^verbatim>\<open>i\<close> below \<^verbatim>\<open>len(seq)\<close> determined by the next outcome.
\<close>

type_synonym rng = "nat \<Rightarrow> nat"

definition random_choice :: "'a list \<Rightarrow> rng \<Rightarrow> py_error + ('a \<times> rng)" where
  "random_choice seq g =
     (if seq = [] then Inl IndexError
      else Inr (seq ! (g 0 mod length seq), \<lambda>n. g (Suc n)))"

text \<open>The generator expression: one \<^verbatim>\<open>random.choice(characters)\<close> per element of \<^verbatim>\<open>range(length)\<close>
  (empty when \<^verbatim>\<open>length\<close> is not positive).\<close>

fun choices :: "nat \<Rightarrow> 'a list \<Rightarrow> rng \<Rightarrow> py_error + ('a list \<times> rng)" where
  "choices 0 seq g = Inr ([], g)"
| "choices (Suc n) seq g =
     (case random_choice seq g of
        Inl e \<Rightarrow> Inl e
      | Inr (c, g') \<Rightarrow>
          (case choices n seq g' of
             Inl e \<Rightarrow> Inl e
           | Inr (cs, g'') \<Rightarrow> Inr (c # cs, g'')))"

definition generate_short_code :: "int \<Rightarrow> rng \<Rightarrow> py_error + (string \<times> rng)" where
  "generate_short_code len g =
     (let characters = ascii_letters @ digits
      in choices (nat len) characters g)"

text \<open>The call \<^verbatim>\<open>generate_short_code()\<close> with the default \<^verbatim>\<open>length=6\<close>.\<close>

definition generate_short_code_default :: "rng \<Rightarrow> py_error + (string \<times> rng)" where
  "generate_short_code_default g = generate_short_code 6 g"

section \<open>User management: validation (app_refactored.py, UserValidator)\<close>

text \<open>
  The payload is the dictionary parsed from the JSON request body, so a field holds any
  JSON value. Truthiness, \<^verbatim>\<open>len\<close>, \<^verbatim>\<open>str.strip\<close> and \<^verbatim>\<open>re.match\<close> are modelled on these
  values with the exceptions Python raises on the wrong type.
\<close>

datatype pyval =
    PNone
  | PBool bool
  | PInt int
  | PFloat real
  | PStr string
  | PList "pyval list"
  | PDict "(string \<times> pyval) list"

fun truthy :: "pyval \<Rightarrow> bool" where
  "truthy PNone = False"
| "truthy (PBool b) = b"
| "truthy (PInt i) = (i \<noteq> 0)"
| "truthy (PFloat x) = (x \<noteq> 0)"
| "truthy (PStr s) = (s \<noteq> [])"
| "truthy (PList xs) = (xs \<noteq> [])"
| "truthy (PDict kvs) = (kvs \<noteq> [])"

subsection \<open>Regular expressions\<close>

datatype rexp =
    Nothing
  | Empty
  | OneOf "char list"
  | Alt rexp rexp
  | Seq rexp rexp
  | Star rexp

fun nullable :: "rexp \<Rightarrow> bool" where
  "nullable Nothing = False"
| "nullable Empty = True"
| "nullable (OneOf cs) = False"
| "nullable (Alt r1 r2) = (nullable r1 \<or> nullable r2)"
| "nullable (Seq r1 r2) = (nullable r1 \<and> nullable r2)"
| "nullable (Star r) = True"

fun deriv :: "char \<Rightarrow> rexp \<Rightarrow> rexp" where
  "deriv c Nothing = Nothing"
| "deriv c Empty = Nothing"
| "deriv c (OneOf cs) = (if c \<in> set cs then Empty else Nothing)"
| "deriv c (Alt r1 r2) = Alt (deriv c r1) (deriv c r2)"
| "deriv c (Seq r1 r2) =
     (if nullable r1 then Alt (Seq (deriv c r1) r2) (deriv c r2) else Seq (deriv c r1) r2)"
| "deriv c (Star r) = Seq (deriv c r) (Star r)"

fun full_match :: "rexp \<Rightarrow> string \<Rightarrow> bool" where
  "full_match r [] = nullable r"
| "full_match r (c # cs) = full_match (deriv c r) cs"

definition one_or_more :: "rexp \<Rightarrow> rexp" where
  "one_or_more r = Seq r (Star r)"

definition two_or_more :: "rexp \<Rightarrow> rexp" where
  "two_or_more r = Seq r (Seq r (Star r))"

text \<open>
  \<^verbatim>\<open>re.match('^...$', s)\<close>: the pattern is anchored at the start, and \<^verbatim>\<open>$\<close> matches at the
  end of the string and also just before a newline that ends the string.
\<close>

definition re_match_anchored :: "rexp \<Rightarrow> string \<Rightarrow> bool" where
  "re_match_anchored r s = full_match (Seq r (Alt Empty (OneOf [CHR 0x0A]))) s"

text \<open>\<^verbatim>\<open>^[a-zA-Z0-9._%+-]+@[a-zA-Z0-9.-]+\.[a-zA-Z]{2,}$\<close>\<close>

definition email_pattern :: rexp where
  "email_pattern =
     Seq (one_or_more (OneOf (ascii_lowercase @ ascii_uppercase @ digits @ ''._%+-'')))
    (Seq (OneOf ''@'')
    (Seq (one_or_more (OneOf (ascii_lowercase @ ascii_uppercase @ digits @ ''.-'')))
    (Seq (OneOf ''.'')
         (two_or_more (OneOf (ascii_lowercase @ ascii_uppercase))))))"

subsection \<open>The validators\<close>

fun validate_email :: "pyval \<Rightarrow> py_error + bool" where
  "validate_email (PStr email) = Inr (re_match_anchored email_pattern email)"
| "validate_email _ = Inl TypeError"

fun validate_password :: "pyval \<Rightarrow> py_error + bool" where
  "validate_password (PStr password) = Inr (length password \<ge> 6)"
| "validate_password (PList xs) = Inr (length xs \<ge> 6)"
| "validate_password (PDict kvs) = Inr (length kvs \<ge> 6)"
| "validate_password _ = Inl TypeError"

text \<open>The characters \<^verbatim>\<open>str.strip()\<close> removes, among the code points below 256.\<close>

definition is_space :: "char \<Rightarrow> bool" where
  "is_space c \<longleftrightarrow> (of_char c :: nat) \<in> {9, 10, 11, 12, 13, 28, 29, 30, 31, 32, 133, 160}"

definition strip :: "string \<Rightarrow> string" where
  "strip s = rev (dropWhile is_space (rev (dropWhile is_space s)))"

fun validate_name :: "pyval \<Rightarrow> py_error + bool" where
  "validate_name (PStr name) = Inr (length (strip name) \<ge> 2)"
| "validate_name _ = Inl AttributeError"

text \<open>The loop over \<^verbatim>\<open>required_fields\<close>: the first field that is absent or falsy, if any.\<close>

fun missing_field :: "(string \<rightharpoonup> pyval) \<Rightarrow> string list \<Rightarrow> string option" where
  "missing_field data [] = None"
| "missing_field data (field # rest) =
     (case data field of
        None \<Rightarrow> Some field
      | Some v \<Rightarrow> if \<not> truthy v then Some field else missing_field data rest)"

text \<open>
  \<^verbatim>\<open>data['email']\<close> is read without a membership test and raises \<^verbatim>\<open>KeyError\<close> when the key is
  absent; \<^verbatim>\<open>password\<close> and \<^verbatim>\<open>name\<close> are validated only when \<^verbatim>\<open>in data\<close>.
\<close>

definition validate_user_data ::
    "(string \<rightharpoonup> pyval) \<Rightarrow> string list \<Rightarrow> py_error + (bool \<times> string)" where
  "validate_user_data data required_fields =
     (case missing_field data required_fields of
        Some field \<Rightarrow> Inr (False, ''Missing required field: '' @ field)
      | None \<Rightarrow>
     (case data ''email'' of
        None \<Rightarrow> Inl (KeyError ''email'')
      | Some email \<Rightarrow>
     (case validate_email email of
        Inl e \<Rightarrow> Inl e
      | Inr email_ok \<Rightarrow>
     if \<not> email_ok then Inr (False, ''Invalid email format'')
     else
     (case (case data ''password'' of None \<Rightarrow> Inr True
            | Some password \<Rightarrow> validate_password password) of
        Inl e \<Rightarrow> Inl e
      | Inr password_ok \<Rightarrow>
     if \<not> password_ok then Inr (False, ''Password must be at least 6 characters long'')
     else
     (case (case data ''name'' of None \<Rightarrow> Inr True
            | Some name \<Rightarrow> validate_name name) of
        Inl e \<Rightarrow> Inl e
      | Inr name_ok \<Rightarrow>
     if \<not> name_ok then Inr (False, ''Name must be at least 2 characters long'')
     else Inr (True, '''')))))) "

section \<open>User management: database and service (app_refactored.py)\<close>

text \<open>
  Modelled from the spec: the script that creates the table is not part of the sources
  at hand. The specification gives the table \<^verbatim>\<open>users(id, name, email, password)\<close>, with
  \<^verbatim>\<open>id\<close> assigned by the backing store on creation and no uniqueness constraint on
  \<^verbatim>\<open>email\<close> in the schema. The database is the list of rows of this table in scan order;
  the rule by which the store picks the identifier of a new row is a parameter
  \<open>new_id\<close> of the operations that insert.

  \<^verbatim>\<open>DatabaseManager.execute_query\<close> and \<^verbatim>\<open>execute_update\<close> open a connection, run one
  parameterized statement, commit (for updates) and close. Each statement the service
  issues is modelled by the function on the table it denotes; a \<^verbatim>\<open>WHERE\<close> clause is a
  predicate on rows. Failures of the database itself (a missing file, a locked table)
  are not part of the model.
\<close>

record user_row =
  u_id :: int
  u_name :: string
  u_email :: string
  u_password :: string

type_synonym database = "user_row list"

text \<open>\<^verbatim>\<open>SELECT id, name, email FROM users [WHERE ...]\<close>\<close>

definition select_id_name_email :: "(user_row \<Rightarrow> bool) \<Rightarrow> database \<Rightarrow> (int \<times> string \<times> string) list" where
  "select_id_name_email wh db = map (\<lambda>r. (u_id r, u_name r, u_email r)) (filter wh db)"

text \<open>\<^verbatim>\<open>SELECT id FROM users WHERE ...\<close>\<close>

definition select_id :: "(user_row \<Rightarrow> bool) \<Rightarrow> database \<Rightarrow> int list" where
  "select_id wh db = map u_id (filter wh db)"

text \<open>
  \<^verbatim>\<open>INSERT INTO users (name, email, password) VALUES (?, ?, ?)\<close>; the result is
  \<^verbatim>\<open>cursor.rowcount\<close> and the table after the commit.
\<close>

definition insert_user ::
    "(database \<Rightarrow> int) \<Rightarrow> string \<Rightarrow> string \<Rightarrow> string \<Rightarrow> database \<Rightarrow> int \<times> database" where
  "insert_user new_id name email password db =
     (1, db @ [\<lparr>u_id = new_id db, u_name = name, u_email = email, u_password = password\<rparr>])"


text \<open>
  SQLite's \<^verbatim>\<open>LIKE\<close>: \<^verbatim>\<open>%\<close> matches any run of characters, \<^verbatim>\<open>_\<close> any single character, and
  every other character matches itself up to the case of ASCII letters.
\<close>

definition ascii_fold :: "char \<Rightarrow> char" where
  "ascii_fold c = (case map_of (zip ascii_uppercase ascii_lowercase) c of Some l \<Rightarrow> l | None \<Rightarrow> c)"

fun sql_like :: "string \<Rightarrow> string \<Rightarrow> bool" where
  "sql_like [] s = (s = [])"
| "sql_like (p # ps) [] = (p = CHR ''%'' \<and> sql_like ps [])"
| "sql_like (p # ps) (c # cs) =
     (if p = CHR ''%'' then sql_like ps (c # cs) \<or> sql_like (p # ps) cs
      else (p = CHR ''_'' \<or> ascii_fold p = ascii_fold c) \<and> sql_like ps cs)"

subsection \<open>UserService\<close>

text \<open>
  \<^verbatim>\<open>hash_password\<close> is \<^verbatim>\<open>hashlib.sha256(password.encode()).hexdigest()\<close>; the digest function
  is a parameter \<open>sha256_hex\<close> of the operations that hash.
\<close>

definition hash_password :: "(string \<Rightarrow> string) \<Rightarrow> string \<Rightarrow> string" where
  "hash_password sha256_hex password = sha256_hex password"

text \<open>
  Binding a Python \<^verbatim>\<open>int\<close> to a \<^verbatim>\<open>?\<close> placeholder: SQLite integers are signed 64-bit
  values, and \<^verbatim>\<open>cursor.execute\<close> raises \<^verbatim>\<open>OverflowError\<close> for a parameter outside that range,
  before the statement runs.
\<close>

definition sqlite_int_ok :: "int \<Rightarrow> bool" where
  "sqlite_int_ok i \<longleftrightarrow> - (2 ^ 63) \<le> i \<and> i < 2 ^ 63"

definition bind_int :: "int \<Rightarrow> py_error + int" where
  "bind_int i = (if sqlite_int_ok i then Inr i else Inl OverflowError)"

definition get_all_users :: "database \<Rightarrow> (int \<times> string \<times> string) list" where
  "get_all_users db = select_id_name_email (\<lambda>r. True) db"

definition get_user_by_id ::
    "int \<Rightarrow> database \<Rightarrow> py_error + (int \<times> string \<times> string) option" where
  "get_user_by_id user_id db =
     (case bind_int user_id of
        Inl e \<Rightarrow> Inl e
      | Inr i \<Rightarrow>
          (case select_id_name_email (\<lambda>r. u_id r = i) db of
             [] \<Rightarrow> Inr None
           | row # _ \<Rightarrow> Inr (Some row)))"

definition create_user ::
    "(database \<Rightarrow> int) \<Rightarrow> (string \<Rightarrow> string) \<Rightarrow> string \<Rightarrow> string \<Rightarrow> string \<Rightarrow> database
      \<Rightarrow> int option \<times> database" where
  "create_user new_id sha256_hex name email password db =
     (let password_hash = hash_password sha256_hex password;
          (affected_rows, db') = insert_user new_id name email password_hash db;
          result = select_id (\<lambda>r. u_email r = email) db'
      in (case result of [] \<Rightarrow> None | i # _ \<Rightarrow> Some i, db'))"


definition search_users :: "string \<Rightarrow> database \<Rightarrow> (int \<times> string \<times> string) list" where
  "search_users name db =
     select_id_name_email (\<lambda>r. sql_like (''%'' @ name @ ''%'') (u_name r)) db"

subsection \<open>HTTP handlers\<close>

type_synonym response = "pyval \<times> nat"

definition create_error_response :: "string \<Rightarrow> nat \<Rightarrow> response" where
  "create_error_response message status_code = (PDict [(''error'', PStr message)], status_code)"



text \<open>
  \<^verbatim>\<open>GET /users\<close>, \<^verbatim>\<open>GET /user/<int:user_id>\<close> and \<^verbatim>\<open>GET /search\<close>: each row becomes the
  dictionary \<^verbatim>\<open>{"id": user[0], "name": user[1], "email": user[2]}\<close>.
\<close>

definition user_json :: "int \<times> string \<times> string \<Rightarrow> pyval" where
  "user_json user = (case user of (i, n, e) \<Rightarrow> PDict [(''id'', PInt i), (''name'', PStr n), (''email'', PStr e)])"

definition get_all_users_handler :: "database \<Rightarrow> response" where
  "get_all_users_handler db = (PDict [(''users'', PList (map user_json (get_all_users db)))], 200)"

definition get_user_handler :: "int \<Rightarrow> database \<Rightarrow> response" where
  "get_user_handler user_id db =
     (case get_user_by_id user_id db of
        Inl e \<Rightarrow> create_error_response ''Internal server error'' 500
      | Inr (Some user) \<Rightarrow> (user_json user, 200)
      | Inr None \<Rightarrow> create_error_response ''User not found'' 404)"

definition search_users_handler :: "string option \<Rightarrow> database \<Rightarrow> response" where
  "search_users_handler name db =
     (case name of
        None \<Rightarrow> create_error_response ''Please provide a name to search'' 400
      | Some n \<Rightarrow>
          if n = [] then create_error_response ''Please provide a name to search'' 400
          else (PDict [(''users'', PList (map user_json (search_users n db)))], 200))"

text \<open>Two tables that agree on every column except \<^verbatim>\<open>password\<close>.\<close>

definition same_public :: "database \<Rightarrow> database \<Rightarrow> bool" where
  "same_public db1 db2 \<longleftrightarrow>
     list_all2 (\<lambda>r r'. u_id r = u_id r' \<and> u_name r = u_name r' \<and> u_email r = u_email r') db1 db2"

section \<open>Properties of the URL store\<close>

lemma store_inv_iff:
  "store_inv s \<longleftrightarrow>
     distinct (map fst (mappings s)) \<and>
     (\<forall>c r. get_mapping c s = Some r \<longrightarrow>
        r < length (heap s) \<and> short_code (heap s ! r) = c \<and> 0 \<le> clicks (heap s ! r))"
  unfolding store_inv_def get_mapping_def by (auto simp: map_of_eq_Some_iff)

lemma store_inv_empty: "store_inv empty_store"
  by (simp add: store_inv_def empty_store_def)

lemma store_inv_add:
  assumes "store_inv s"
  shows "store_inv (snd (add_mapping c u t s))"
proof -
  let ?m = "\<lparr>original_url = u, short_code = c, created_at = t, clicks = 0\<rparr>"
  let ?s' = "snd (add_mapping c u t s)"
  have heap': "heap ?s' = heap s @ [?m]"
    and maps': "mappings ?s' = AList.update c (length (heap s)) (mappings s)"
    by (simp_all add: add_mapping_def Let_def)
  from assms have dist: "distinct (map fst (mappings s))"
    and old: "\<And>k r. get_mapping k s = Some r \<Longrightarrow>
        r < length (heap s) \<and> short_code (heap s ! r) = k \<and> 0 \<le> clicks (heap s ! r)"
    unfolding store_inv_iff by blast+
  have "distinct (map fst (mappings ?s'))"
    using dist by (simp add: maps' distinct_update)
  moreover have "r < length (heap ?s') \<and> short_code (heap ?s' ! r) = k \<and> 0 \<le> clicks (heap ?s' ! r)"
    if "get_mapping k ?s' = Some r" for k r
  proof (cases "k = c")
    case True
    with that have "r = length (heap s)"
      by (simp add: get_mapping_def maps' update_conv')
    then show ?thesis using True by (simp add: heap')
  next
    case False
    with that have "get_mapping k s = Some r"
      by (simp add: get_mapping_def maps' update_conv')
    from old [OF this] show ?thesis by (simp add: heap' nth_append)
  qed
  ultimately show ?thesis unfolding store_inv_iff by blast
qed

lemma store_inv_incr: "store_inv s \<Longrightarrow> store_inv (snd (increment_clicks c s))"
  unfolding store_inv_iff
  by (auto simp: increment_clicks_def get_mapping_def nth_list_update split: option.splits)

lemma store_inv_exec_op: "store_inv s \<Longrightarrow> store_inv (exec_op x s)"
  by (cases x) (simp_all add: store_inv_add store_inv_incr)

lemma store_inv_exec_ops: "store_inv s \<Longrightarrow> store_inv (exec_ops xs s)"
  by (induction xs arbitrary: s) (simp_all add: store_inv_exec_op)

lemma store_inv_reachable: "store_inv (exec_ops xs empty_store)"
  by (rule store_inv_exec_ops [OF store_inv_empty])

lemma get_mapping_exec_op_no_add:
  "\<not> adds c x \<Longrightarrow> get_mapping c (exec_op x s) = get_mapping c s"
  by (cases x) (auto simp: get_mapping_def add_mapping_def increment_clicks_def Let_def update_conv'
       split: option.splits)

lemma get_mapping_exec_ops_no_add:
  "\<forall>x \<in> set ops. \<not> adds c x \<Longrightarrow> get_mapping c (exec_ops ops s) = get_mapping c s"
  by (induction ops arbitrary: s) (simp_all add: get_mapping_exec_op_no_add)

text \<open>
  Claim C3. \<^verbatim>\<open>add_mapping(c, u)\<close> allocates a new record with \<^verbatim>\<open>original_url = u\<close>,
  \<^verbatim>\<open>short_code = c\<close>, the clock reading as \<^verbatim>\<open>created_at\<close> and \<^verbatim>\<open>clicks = 0\<close>, stores it under \<^verbatim>\<open>c\<close>
  (whether or not \<^verbatim>\<open>c\<close> had an entry) without touching the entry of any other code, and
  returns it; \<^verbatim>\<open>get_mapping(c)\<close> right afterwards returns the same record. After any sequence
  of calls on a fresh store in which a code \<^verbatim>\<open>k\<close> was never added, \<^verbatim>\<open>get_mapping(k)\<close> is \<^verbatim>\<open>None\<close>.
\<close>

theorem add_mapping_then_get_mapping:
  "(case add_mapping c u now s of (r, s') \<Rightarrow>
      deref s r = None \<and>
      deref s' r = Some \<lparr>original_url = u, short_code = c, created_at = now, clicks = 0\<rparr> \<and>
      get_mapping c s' = Some r \<and>
      (\<forall>k. k \<noteq> c \<longrightarrow> get_mapping k s' = get_mapping k s)) \<and>
   (\<not> list_ex (adds k) ops \<longrightarrow> get_mapping k (exec_ops ops empty_store) = None)"
proof -
  have "get_mapping k empty_store = None"
    by (simp add: get_mapping_def empty_store_def)
  then have "\<not> list_ex (adds k) ops \<longrightarrow> get_mapping k (exec_ops ops empty_store) = None"
    by (simp add: get_mapping_exec_ops_no_add list_ex_iff)
  then show ?thesis
    by (simp add: add_mapping_def Let_def deref_def get_mapping_def update_conv')
qed

theorem add_mapping_then_get_mapping_witness:
  "(case add_mapping ''abc'' ''https://x.com'' 5 empty_store of (r, s') \<Rightarrow>
      deref s' r = Some \<lparr>original_url = ''https://x.com'', short_code = ''abc'', created_at = 5, clicks = 0\<rparr> \<and>
      get_mapping ''abc'' s' = Some r \<and> map_option clicks (stored s' ''abc'') = Some 0) \<and>
   \<not> list_ex (adds ''missing'') [AddMapping ''abc'' ''https://x.com'' 5, IncrementClicks ''missing''] \<and>
   get_mapping ''missing'' (exec_ops [AddMapping ''abc'' ''https://x.com'' 5, IncrementClicks ''missing''] empty_store) = None"
  using add_mapping_then_get_mapping [where c = "''abc''" and u = "''https://x.com''" and now = 5
      and s = empty_store and k = "''missing''"
      and ops = "[AddMapping ''abc'' ''https://x.com'' 5, IncrementClicks ''missing'']"]
  by (simp add: add_mapping_def Let_def deref_def get_mapping_def stored_def empty_store_def)

lemma get_mapping_in_range:
  "store_inv s \<Longrightarrow> get_mapping c s = Some r \<Longrightarrow> r < length (heap s)"
  unfolding store_inv_iff by blast

lemma increment_clicks_absent:
  "get_mapping c s = None \<Longrightarrow> increment_clicks c s = (False, s)"
  by (simp add: increment_clicks_def get_mapping_def)

lemma increment_clicks_present:
  assumes "get_mapping c s = Some r" and "r < length (heap s)"
  shows "fst (increment_clicks c s) = True"
    and "mappings (snd (increment_clicks c s)) = mappings s"
    and "stored s c = Some (heap s ! r)"
    and "stored (snd (increment_clicks c s)) c = Some ((heap s ! r)\<lparr>clicks := clicks (heap s ! r) + 1\<rparr>)"
    and "\<And>r'. r' \<noteq> r \<Longrightarrow> deref (snd (increment_clicks c s)) r' = deref s r'"
  using assms
  by (simp_all add: increment_clicks_def get_mapping_def stored_def deref_def)

lemma clicks_after_increments:
  assumes "get_mapping c s = Some r" and "r < length (heap s)"
  shows "map_option clicks (stored (((\<lambda>x. snd (increment_clicks c x)) ^^ n) s) c)
           = map_option (\<lambda>m. clicks m + int n) (stored s c)
         \<and> get_mapping c (((\<lambda>x. snd (increment_clicks c x)) ^^ n) s) = Some r
         \<and> r < length (heap (((\<lambda>x. snd (increment_clicks c x)) ^^ n) s))"
proof (induction n)
  case 0
  show ?case using assms by (simp add: increment_clicks_present(3))
next
  case (Suc n)
  let ?t = "((\<lambda>x. snd (increment_clicks c x)) ^^ n) s"
  from Suc have g: "get_mapping c ?t = Some r" and l: "r < length (heap ?t)"
    and k: "map_option clicks (stored ?t c) = map_option (\<lambda>m. clicks m + int n) (stored s c)"
    by simp_all
  have "map_option clicks (stored (snd (increment_clicks c ?t)) c)
          = map_option (\<lambda>k. k + 1) (map_option clicks (stored ?t c))"
    by (simp add: increment_clicks_present(3,4) [OF g l])
  moreover have "get_mapping c (snd (increment_clicks c ?t)) = Some r"
    using g by (simp add: get_mapping_def increment_clicks_present(2) [OF g l])
  moreover have "r < length (heap (snd (increment_clicks c ?t)))"
    using g l by (simp add: increment_clicks_def get_mapping_def)
  ultimately show ?case
    by (simp add: k option.map_comp comp_def algebra_simps)
qed

text \<open>
  Claim C2. \<^verbatim>\<open>increment_clicks(c)\<close> returns false and leaves the state unchanged when \<^verbatim>\<open>c\<close> has no
  mapping. In every state reached from the empty store by calls of the four methods, when
  \<^verbatim>\<open>c\<close> has a mapping the call returns true and the record stored under \<^verbatim>\<open>c\<close> afterwards is the
  one stored before with \<^verbatim>\<open>clicks\<close> increased by exactly 1. After \<^verbatim>\<open>add_mapping(c, u)\<close> in any
  state, followed by \<open>n\<close> calls of \<^verbatim>\<open>increment_clicks(c)\<close>, the stored counter of \<^verbatim>\<open>c\<close> is \<open>n\<close>.
\<close>

theorem increment_clicks_counts:
  "(get_mapping c s = None \<longrightarrow> increment_clicks c s = (False, s)) \<and>
   (get_mapping c (exec_ops ops empty_store) \<noteq> None \<longrightarrow>
      (case increment_clicks c (exec_ops ops empty_store) of (ok, s') \<Rightarrow>
         ok \<and> stored (exec_ops ops empty_store) c \<noteq> None \<and>
         stored s' c = map_option (\<lambda>m. m\<lparr>clicks := clicks m + 1\<rparr>) (stored (exec_ops ops empty_store) c))) \<and>
   map_option clicks
     (stored (((\<lambda>x. snd (increment_clicks c x)) ^^ n) (snd (add_mapping c u now s))) c) = Some (int n)"
proof (intro conjI impI)
  assume "get_mapping c s = None"
  then show "increment_clicks c s = (False, s)" by (rule increment_clicks_absent)
next
  let ?s = "exec_ops ops empty_store"
  assume "get_mapping c ?s \<noteq> None"
  then obtain r where g: "get_mapping c ?s = Some r" by blast
  have l: "r < length (heap ?s)"
    by (rule get_mapping_in_range [OF store_inv_reachable g])
  show "case increment_clicks c ?s of (ok, s') \<Rightarrow>
         ok \<and> stored ?s c \<noteq> None \<and>
         stored s' c = map_option (\<lambda>m. m\<lparr>clicks := clicks m + 1\<rparr>) (stored ?s c)"
    using increment_clicks_present(1,3,4) [OF g l] by (simp add: case_prod_unfold)
next
  let ?s = "snd (add_mapping c u now s)"
  have g: "get_mapping c ?s = Some (length (heap s))" and l: "length (heap s) < length (heap ?s)"
    and st: "map_option clicks (stored ?s c) = Some 0"
    by (simp_all add: add_mapping_def Let_def get_mapping_def update_conv' stored_def deref_def)
  show "map_option clicks (stored (((\<lambda>x. snd (increment_clicks c x)) ^^ n) ?s) c) = Some (int n)"
    using clicks_after_increments [OF g l, of n] st by (cases "stored ?s c") auto
qed

theorem increment_clicks_counts_witness:
  "get_mapping ''abc'' empty_store = None \<and>
   increment_clicks ''abc'' empty_store = (False, empty_store) \<and>
   get_mapping ''abc'' (exec_ops [AddMapping ''abc'' ''https://x.com'' 5] empty_store) \<noteq> None \<and>
   fst (increment_clicks ''abc'' (exec_ops [AddMapping ''abc'' ''https://x.com'' 5] empty_store)) \<and>
   map_option clicks
     (stored (snd (increment_clicks ''abc'' (exec_ops [AddMapping ''abc'' ''https://x.com'' 5] empty_store))) ''abc'')
     = Some 1 \<and>
   map_option clicks
     (stored (((\<lambda>x. snd (increment_clicks ''abc'' x)) ^^ 3)
        (snd (add_mapping ''abc'' ''https://x.com'' 5 empty_store))) ''abc'') = Some 3"
  using increment_clicks_counts [where c = "''abc''" and s = empty_store and n = 3
      and u = "''https://x.com''" and now = 5 and ops = "[AddMapping ''abc'' ''https://x.com'' 5]"]
  by (simp add: get_mapping_def empty_store_def add_mapping_def Let_def stored_def deref_def
        case_prod_unfold)

text \<open>
  Claim C9. In every state reached from the empty store, if \<^verbatim>\<open>c\<close> has a mapping then
  \<^verbatim>\<open>increment_clicks(c)\<close> leaves the dictionary as it is, changes the record stored under \<^verbatim>\<open>c\<close>
  in its \<^verbatim>\<open>clicks\<close> field only (\<^verbatim>\<open>original_url\<close>, \<^verbatim>\<open>short_code\<close> and \<^verbatim>\<open>created_at\<close> keep their
  values), and changes neither the record stored under any other code nor any other
  allocated object.
\<close>

theorem increment_clicks_frame:
  assumes "get_mapping c (exec_ops ops empty_store) = Some r"
  shows "mappings (snd (increment_clicks c (exec_ops ops empty_store))) = mappings (exec_ops ops empty_store)
    \<and> (\<exists>m. stored (exec_ops ops empty_store) c = Some m
          \<and> stored (snd (increment_clicks c (exec_ops ops empty_store))) c = Some (m\<lparr>clicks := clicks m + 1\<rparr>))
    \<and> (\<forall>k. k \<noteq> c \<longrightarrow>
          stored (snd (increment_clicks c (exec_ops ops empty_store))) k = stored (exec_ops ops empty_store) k)
    \<and> (\<forall>r'. r' \<noteq> r \<longrightarrow>
          deref (snd (increment_clicks c (exec_ops ops empty_store))) r' = deref (exec_ops ops empty_store) r')"
proof -
  let ?s = "exec_ops ops empty_store"
  let ?s' = "snd (increment_clicks c ?s)"
  have inv: "store_inv ?s" by (rule store_inv_reachable)
  have l: "r < length (heap ?s)" by (rule get_mapping_in_range [OF inv assms])
  note p = increment_clicks_present [OF assms l]
  have other: "stored ?s' k = stored ?s k" if "k \<noteq> c" for k
  proof (cases "get_mapping k ?s")
    case None
    then show ?thesis by (simp add: stored_def get_mapping_def p(2))
  next
    case (Some r')
    from inv Some have "short_code (heap ?s ! r') = k"
      unfolding store_inv_iff by blast
    moreover from inv assms have "short_code (heap ?s ! r) = c"
      unfolding store_inv_iff by blast
    ultimately have "r' \<noteq> r" using that by auto
    then show ?thesis using Some by (simp add: stored_def get_mapping_def p(2) p(5))
  qed
  show ?thesis using p(2,3,4,5) other by blast
qed

theorem increment_clicks_frame_witness:
  "get_mapping ''abc'' (exec_ops [AddMapping ''abc'' ''https://x.com'' 5, AddMapping ''xyz'' ''https://y.org'' 6]
      empty_store) = Some 0 \<and>
   stored (snd (increment_clicks ''abc'' (exec_ops [AddMapping ''abc'' ''https://x.com'' 5,
      AddMapping ''xyz'' ''https://y.org'' 6] empty_store))) ''xyz''
    = Some \<lparr>original_url = ''https://y.org'', short_code = ''xyz'', created_at = 6, clicks = 0\<rparr> \<and>
   stored (snd (increment_clicks ''abc'' (exec_ops [AddMapping ''abc'' ''https://x.com'' 5,
      AddMapping ''xyz'' ''https://y.org'' 6] empty_store))) ''abc''
    = Some \<lparr>original_url = ''https://x.com'', short_code = ''abc'', created_at = 5, clicks = 1\<rparr>"
proof -
  let ?ops = "[AddMapping ''abc'' ''https://x.com'' 5, AddMapping ''xyz'' ''https://y.org'' 6]"
  have g: "get_mapping ''abc'' (exec_ops ?ops empty_store) = Some 0"
    by (simp add: get_mapping_def empty_store_def add_mapping_def Let_def)
  have st: "stored (exec_ops ?ops empty_store) ''xyz''
      = Some \<lparr>original_url = ''https://y.org'', short_code = ''xyz'', created_at = 6, clicks = 0\<rparr>"
    "stored (exec_ops ?ops empty_store) ''abc''
      = Some \<lparr>original_url = ''https://x.com'', short_code = ''abc'', created_at = 5, clicks = 0\<rparr>"
    by (simp_all add: get_mapping_def empty_store_def add_mapping_def Let_def stored_def deref_def)
  from increment_clicks_frame [OF g] g st show ?thesis by auto
qed

text \<open>
  Claim C10. In every state reached from the empty store by any sequence of
  \<^verbatim>\<open>add_mapping\<close>, \<^verbatim>\<open>get_mapping\<close>, \<^verbatim>\<open>increment_clicks\<close> and \<^verbatim>\<open>get_all_mappings\<close> calls, every key
  \<^verbatim>\<open>c\<close> of the dictionary refers to an allocated record whose \<^verbatim>\<open>short_code\<close> is \<^verbatim>\<open>c\<close> and whose
  \<^verbatim>\<open>clicks\<close> is not negative.
\<close>

theorem reachable_store_invariant:
  assumes "get_mapping c (exec_ops ops empty_store) = Some r"
  shows "\<exists>m. deref (exec_ops ops empty_store) r = Some m \<and> short_code m = c \<and> 0 \<le> clicks m"
  using store_inv_reachable [of ops] assms
  unfolding store_inv_iff deref_def by auto

theorem reachable_store_invariant_witness:
  "get_mapping ''abc'' (exec_ops [AddMapping ''abc'' ''https://x.com'' 5, IncrementClicks ''abc'',
      GetMapping ''abc'', GetAllMappings, AddMapping ''abc'' ''https://y.org'' 6, IncrementClicks ''abc'']
      empty_store) = Some 1 \<and>
   (\<exists>m. deref (exec_ops [AddMapping ''abc'' ''https://x.com'' 5, IncrementClicks ''abc'',
      GetMapping ''abc'', GetAllMappings, AddMapping ''abc'' ''https://y.org'' 6, IncrementClicks ''abc'']
      empty_store) 1 = Some m \<and> short_code m = ''abc'' \<and> 0 \<le> clicks m)"
proof -
  let ?ops = "[AddMapping ''abc'' ''https://x.com'' 5, IncrementClicks ''abc'',
      GetMapping ''abc'', GetAllMappings, AddMapping ''abc'' ''https://y.org'' 6, IncrementClicks ''abc'']"
  have g: "get_mapping ''abc'' (exec_ops ?ops empty_store) = Some 1"
    by (simp add: get_mapping_def empty_store_def add_mapping_def increment_clicks_def Let_def)
  from reachable_store_invariant [OF g] g show ?thesis by blast
qed

text \<open>
  Claim C1. A dictionary returned by \<^verbatim>\<open>get_all_mappings\<close> should not show any mutation made
  after it was taken. The copy is shallow: it holds the same \<^verbatim>\<open>URLMapping\<close> objects as the
  store. With one mapping \<^verbatim>\<open>abc\<close> added, a snapshot taken, and \<^verbatim>\<open>increment_clicks("abc")\<close>
  called afterwards, the record read through the snapshot has \<^verbatim>\<open>clicks\<close> 0 before the call
  and 1 after it.
\<close>

theorem snapshot_shares_records:
  "(let s1 = snd (add_mapping ''abc'' ''https://x.com'' 5 empty_store);
        snap = get_all_mappings s1;
        s2 = snd (increment_clicks ''abc'' s1)
    in map_option clicks (read_copy snap s1 ''abc'') = Some 0 \<and>
       map_option clicks (read_copy snap s2 ''abc'') = Some 1)"
  by (simp add: add_mapping_def increment_clicks_def get_all_mappings_def read_copy_def deref_def
        empty_store_def Let_def)

lemma snapshot_unaffected_by_add:
  "read_copy (get_all_mappings (exec_ops ops empty_store))
      (snd (add_mapping c u now (exec_ops ops empty_store))) k
   = read_copy (get_all_mappings (exec_ops ops empty_store)) (exec_ops ops empty_store) k"
proof (cases "get_mapping k (exec_ops ops empty_store)")
  case None
  then show ?thesis by (simp add: read_copy_def get_all_mappings_def get_mapping_def)
next
  case (Some r)
  from get_mapping_in_range [OF store_inv_reachable Some] Some show ?thesis
    by (simp add: read_copy_def get_all_mappings_def get_mapping_def deref_def add_mapping_def
          Let_def nth_append)
qed

section \<open>Properties of the short code generator\<close>

lemma choices_shape:
  "seq \<noteq> [] \<Longrightarrow> \<exists>cs g'. choices n seq g = Inr (cs, g') \<and> length cs = n \<and> set cs \<subseteq> set seq"
proof (induction n arbitrary: g)
  case 0
  show ?case by simp
next
  case (Suc n)
  from Suc.IH [OF Suc.prems, of "\<lambda>n. g (Suc n)"]
  obtain cs g' where "choices n seq (\<lambda>n. g (Suc n)) = Inr (cs, g')" "length cs = n" "set cs \<subseteq> set seq"
    by blast
  moreover have "seq ! (g 0 mod length seq) \<in> set seq"
    using Suc.prems by simp
  ultimately show ?case using Suc.prems
    by (simp add: random_choice_def)
qed

lemma alphabet_distinct:
  "distinct (''ABCDEFGHIJKLMNOPQRSTUVWXYZ'' @ ''abcdefghijklmnopqrstuvwxyz'' @ ''0123456789'')"
  by code_simp

lemma alphabet_length:
  "length (''ABCDEFGHIJKLMNOPQRSTUVWXYZ'' @ ''abcdefghijklmnopqrstuvwxyz'' @ ''0123456789'') = 62"
  by simp

lemma characters_alphabet:
  "set (ascii_letters @ digits)
     = set (''ABCDEFGHIJKLMNOPQRSTUVWXYZ'' @ ''abcdefghijklmnopqrstuvwxyz'' @ ''0123456789'')"
  by (simp only: ascii_letters_def ascii_lowercase_def ascii_uppercase_def digits_def set_append
        Un_commute Un_assoc Un_left_commute)

text \<open>
  Claim C8. Whatever the random source produces, \<^verbatim>\<open>generate_short_code()\<close> with the default
  length returns normally, and its result has exactly 6 characters, each from the alphabet
  \<^verbatim>\<open>[A-Za-z0-9]\<close>, which has 62 characters.
\<close>

theorem generate_short_code_default_shape:
  "\<exists>code g'. generate_short_code_default g = Inr (code, g') \<and> length code = 6 \<and>
      set code \<subseteq> set (''ABCDEFGHIJKLMNOPQRSTUVWXYZ'' @ ''abcdefghijklmnopqrstuvwxyz'' @ ''0123456789'')
   \<and> card (set (''ABCDEFGHIJKLMNOPQRSTUVWXYZ'' @ ''abcdefghijklmnopqrstuvwxyz'' @ ''0123456789'')) = 62"
proof -
  have ne: "ascii_letters @ digits \<noteq> []"
    by (simp add: digits_def)
  have card: "card (set (''ABCDEFGHIJKLMNOPQRSTUVWXYZ'' @ ''abcdefghijklmnopqrstuvwxyz'' @ ''0123456789'')) = 62"
    using distinct_card [OF alphabet_distinct] by (simp only: alphabet_length)
  from choices_shape [OF ne, of 6 g]
  obtain cs g' where c: "choices 6 (ascii_letters @ digits) g = Inr (cs, g')" "length cs = 6"
      "set cs \<subseteq> set (ascii_letters @ digits)"
    by blast
  have "generate_short_code_default g = Inr (cs, g')"
    by (simp add: generate_short_code_default_def generate_short_code_def Let_def c(1))
  with c(2,3) card show ?thesis
    by (simp only: characters_alphabet) blast
qed

lemma generate_short_code_default_example:
  "map_sum id fst (generate_short_code_default (\<lambda>n. 7 * n + 3)) = Inr ''dkryFM''"
  by code_simp

section \<open>Properties of the user service\<close>

lemma select_same_public:
  assumes "same_public db1 db2"
    and "\<And>r r'. u_id r = u_id r' \<Longrightarrow> u_name r = u_name r' \<Longrightarrow> u_email r = u_email r' \<Longrightarrow> wh r = wh r'"
  shows "select_id_name_email wh db1 = select_id_name_email wh db2"
  using assms(1) unfolding same_public_def
proof (induction db1 db2 rule: list_all2_induct)
  case Nil
  show ?case by (simp add: select_id_name_email_def)
next
  case (Cons r db1 r' db2)
  then show ?case using assms(2) [of r r']
    by (auto simp: select_id_name_email_def)
qed

text \<open>
  Claim C7. For two tables that differ only in the \<^verbatim>\<open>password\<close> column, \<^verbatim>\<open>get_all_users\<close>,
  \<^verbatim>\<open>get_user_by_id\<close> and \<^verbatim>\<open>search_users\<close> return the same rows (triples of id, name and
  email), and the three read endpoints built on them return the same responses.
\<close>

theorem reads_do_not_depend_on_password:
  assumes "same_public db1 db2"
  shows "get_all_users db1 = get_all_users db2
       \<and> get_user_by_id user_id db1 = get_user_by_id user_id db2
       \<and> search_users name db1 = search_users name db2
       \<and> get_all_users_handler db1 = get_all_users_handler db2
       \<and> get_user_handler user_id db1 = get_user_handler user_id db2
       \<and> search_users_handler q db1 = search_users_handler q db2"
proof -
  have a: "get_all_users db1 = get_all_users db2"
    unfolding get_all_users_def by (rule select_same_public [OF assms]) simp
  have b: "get_user_by_id i db1 = get_user_by_id i db2" for i
    unfolding get_user_by_id_def by (simp add: select_same_public [OF assms] split: sum.splits)
  have c: "search_users n db1 = search_users n db2" for n
    unfolding search_users_def by (rule select_same_public [OF assms]) simp
  show ?thesis
    by (simp add: a b c get_all_users_handler_def get_user_handler_def search_users_handler_def
          split: option.splits)
qed

theorem reads_do_not_depend_on_password_witness:
  "same_public
     [\<lparr>u_id = 1, u_name = ''Ann'', u_email = ''ann@x.org'', u_password = ''5e88''\<rparr>]
     [\<lparr>u_id = 1, u_name = ''Ann'', u_email = ''ann@x.org'', u_password = ''ef92''\<rparr>] \<and>
   get_all_users [\<lparr>u_id = 1, u_name = ''Ann'', u_email = ''ann@x.org'', u_password = ''5e88''\<rparr>]
     = get_all_users [\<lparr>u_id = 1, u_name = ''Ann'', u_email = ''ann@x.org'', u_password = ''ef92''\<rparr>] \<and>
   get_user_by_id 1 [\<lparr>u_id = 1, u_name = ''Ann'', u_email = ''ann@x.org'', u_password = ''5e88''\<rparr>]
     = Inr (Some (1, ''Ann'', ''ann@x.org'')) \<and>
   get_user_by_id 1 [\<lparr>u_id = 1, u_name = ''Ann'', u_email = ''ann@x.org'', u_password = ''ef92''\<rparr>]
     = Inr (Some (1, ''Ann'', ''ann@x.org'')) \<and>
   search_users ''n'' [\<lparr>u_id = 1, u_name = ''Ann'', u_email = ''ann@x.org'', u_password = ''5e88''\<rparr>]
     = search_users ''n'' [\<lparr>u_id = 1, u_name = ''Ann'', u_email = ''ann@x.org'', u_password = ''ef92''\<rparr>]"
proof -
  have h: "same_public
     [\<lparr>u_id = 1, u_name = ''Ann'', u_email = ''ann@x.org'', u_password = ''5e88''\<rparr>]
     [\<lparr>u_id = 1, u_name = ''Ann'', u_email = ''ann@x.org'', u_password = ''ef92''\<rparr>]"
    by (simp add: same_public_def)
  have g: "get_user_by_id 1 [\<lparr>u_id = 1, u_name = ''Ann'', u_email = ''ann@x.org'', u_password = ''5e88''\<rparr>]
     = Inr (Some (1, ''Ann'', ''ann@x.org''))"
    by (simp add: get_user_by_id_def bind_int_def sqlite_int_ok_def select_id_name_email_def)
  from reads_do_not_depend_on_password [OF h, of 1 "''n''"] h g show ?thesis
    by simp
qed

text \<open>
  Claim C5. When no row of the table has the given email, \<^verbatim>\<open>create_user(name, email, password)\<close>
  appends exactly one row, holding the name, the email and the hash of the password, and
  returns the identifier the backing store assigned to that row.
\<close>

theorem create_user_returns_new_id:
  assumes "email \<notin> u_email ` set db"
  shows "create_user new_id sha256_hex name email password db =
           (Some (new_id db),
            db @ [\<lparr>u_id = new_id db, u_name = name, u_email = email,
                   u_password = sha256_hex password\<rparr>])"
proof -
  have "filter (\<lambda>r. u_email r = email) db = []"
    using assms by (auto simp: filter_empty_conv)
  then show ?thesis
    by (simp add: create_user_def insert_user_def select_id_def hash_password_def Let_def)
qed

theorem create_user_returns_new_id_witness:
  "''bob@x.org'' \<notin> u_email ` set [\<lparr>u_id = 1, u_name = ''Ann'', u_email = ''ann@x.org'', u_password = ''h:pw1''\<rparr>] \<and>
   create_user (\<lambda>db. int (length db) + 1) (\<lambda>p. ''h:'' @ p) ''Bob'' ''bob@x.org'' ''secret''
     [\<lparr>u_id = 1, u_name = ''Ann'', u_email = ''ann@x.org'', u_password = ''h:pw1''\<rparr>]
   = (Some 2,
      [\<lparr>u_id = 1, u_name = ''Ann'', u_email = ''ann@x.org'', u_password = ''h:pw1''\<rparr>,
       \<lparr>u_id = 2, u_name = ''Bob'', u_email = ''bob@x.org'', u_password = ''h:secret''\<rparr>])"
  using create_user_returns_new_id [where db = "[\<lparr>u_id = 1, u_name = ''Ann'', u_email = ''ann@x.org'', u_password = ''h:pw1''\<rparr>]"
      and email = "''bob@x.org''" and new_id = "\<lambda>db. int (length db) + 1" and sha256_hex = "\<lambda>p. ''h:'' @ p"
      and name = "''Bob''" and password = "''secret''"]
  by simp









section \<open>Properties of the payload validator\<close>

lemma validate_user_data_missing:
  "missing_field data required_fields = Some field \<Longrightarrow>
     validate_user_data data required_fields = Inr (False, ''Missing required field: '' @ field)"
  by (simp add: validate_user_data_def)

lemma validate_user_data_no_email:
  "missing_field data required_fields = None \<Longrightarrow> data ''email'' = None \<Longrightarrow>
     validate_user_data data required_fields = Inl (KeyError ''email'')"
  by (simp add: validate_user_data_def)

text \<open>
  Claim C4. The validator should apply the email check only when the payload has an
  \<^verbatim>\<open>email\<close> entry, as it does for \<^verbatim>\<open>password\<close> and \<^verbatim>\<open>name\<close>, and return a verdict for every
  payload. For the payload \<^verbatim>\<open>{"name": "Al"}\<close> with \<^verbatim>\<open>name\<close> as the only required field, the
  scan for missing fields passes and the validator then raises \<^verbatim>\<open>KeyError\<close> on \<^verbatim>\<open>data['email']\<close>
  instead of returning success.
\<close>

theorem validate_user_data_raises_without_email:
  "validate_user_data [''name'' \<mapsto> PStr ''Al''] [''name''] = Inl (KeyError ''email'')"
  by (simp add: validate_user_data_def)

end
